theory Spec2Isabelle
  imports Main "HOL-Library.AList"
begin

section \<open>Python strings\<close>

text \<open>
  Python's \<open>needle in haystack\<close> on strings: the needle occurs as a contiguous run of
  characters. The test tries the needle at every position, left to right.
\<close>

fun str_contains :: "string \<Rightarrow> string \<Rightarrow> bool" where
  "str_contains p [] = (p = [])"
| "str_contains p (c # cs) = (take (length p) (c # cs) = p \<or> str_contains p cs)"

text \<open>
  \<open>str.strip()\<close> removes leading and trailing whitespace. The whitespace characters are
  the code points below 256 for which \<open>str.isspace\<close> holds: tab, line feed, vertical tab,
  form feed, carriage return, the four separators 28 to 31, space, NEL and the no-break space.
\<close>

definition is_space :: "char \<Rightarrow> bool" where
  "is_space c = (of_char c \<in> {9, 10, 11, 12, 13, 28, 29, 30, 31, 32, 133, 160 :: nat})"

definition strip :: "string \<Rightarrow> string" where
  "strip s = rev (dropWhile is_space (rev (dropWhile is_space s)))"

text \<open>\<open>s.split('\n')[0]\<close>: the text before the first line feed (all of \<open>s\<close> without one).\<close>

definition newline :: char where
  "newline = CHR 0x0A"

definition before_newline :: "string \<Rightarrow> string" where
  "before_newline s = takeWhile (\<lambda>c. c \<noteq> newline) s"

text \<open>Decimal rendering of integers, as an f-string does it.\<close>

fun str_nat :: "nat \<Rightarrow> string" where
  "str_nat n = (if n < 10 then [char_of (48 + n)] else str_nat (n div 10) @ [char_of (48 + n mod 10)])"

definition str_int :: "int \<Rightarrow> string" where
  "str_int i = (if i < 0 then CHR ''-'' # str_nat (nat (- i)) else str_nat (nat i))"

section \<open>Failures\<close>

text \<open>
  The exceptions the code can raise: the two integration errors (imported from the
  integration framework) and the two builtin errors of the table code.
  \<open>IntegrationAPIError\<close> is called with the integration name, a message and, in one
  of its two call sites only, the status code.
\<close>

datatype error =
    IntegrationAuthError string
  | IntegrationAPIError string string "int option"
  | AttributeError
  | ValueError

datatype exception_class = AuthErrorClass | APIErrorClass | BuiltinErrorClass

fun class_of :: "error \<Rightarrow> exception_class" where
  "class_of (IntegrationAuthError _) = AuthErrorClass"
| "class_of (IntegrationAPIError _ _ _) = APIErrorClass"
| "class_of AttributeError = BuiltinErrorClass"
| "class_of ValueError = BuiltinErrorClass"

section \<open>The response classifier\<close>

text \<open>
  The response object: the fields \<open>_handle_response\<close> looks at. \<open>url\<close> and
  \<open>headers_str\<close> hold the text that the f-string interpolation of \<open>response.url\<close> and
  \<open>response.headers\<close> yields. The body is read
  through \<open>response.text()\<close> (here \<open>response_text\<close>), which keeps the body once it is
  read and gives the same text at every call; \<open>text_calls\<close> counts how often it was
  awaited.
\<close>

record response =
  status :: int
  reason :: string
  url :: string
  headers_str :: string
  body :: string
  text_calls :: nat

definition response_text :: "response \<Rightarrow> string \<times> response" where
  "response_text r = (body r, r\<lparr>text_calls := Suc (text_calls r)\<rparr>)"

definition login_div :: string where
  "login_div = ''<div class='' @ [CHR 0x22] @ ''login-main'' @ [CHR 0x22] @ '' ng-app='' @ [CHR 0x22]
     @ ''loginApp'' @ [CHR 0x22] @ '' ng-cloak>''"

definition handle_response :: "string \<Rightarrow> response \<Rightarrow> (error + string) \<times> response" where
  "handle_response integration_name response =
     (if status response = 200 then
        (case response_text response of (r_text, response1) \<Rightarrow>
           if str_contains login_div r_text \<or> str_contains ''loginApp'' r_text
           then (Inl (IntegrationAuthError (''ERSP Authentication failed for '' @ url response1)), response1)
           else (case response_text response1 of (r_text2, response2) \<Rightarrow> (Inr r_text2, response2)))
      else
        (let status_code = status response in
         if 400 \<le> status_code \<and> status_code < 500 then
           (case response_text response of (t, response1) \<Rightarrow>
              (Inl (IntegrationAuthError
                 (''ERSP: '' @ str_int status_code @ '' - '' @ reason response @ '' '' @ [newline] @ t)), response1))
         else if status_code = 302 then
           (case response_text response of (t, response1) \<Rightarrow>
              (Inl (IntegrationAPIError integration_name
                 (''forced redirection caught to '' @ url response @ ''. '' @ [newline] @ t) None), response1))
         else
           (Inl (IntegrationAPIError integration_name
              (''ersp: '' @ str_int status_code @ '' - '' @ headers_str response) (Some status_code)), response)))"

section \<open>Tables\<close>

text \<open>
  A table as the extraction code sees it: the list of its \<open>tr\<close> rows in document
  order, each row the list of its children. A child is a header cell (\<open>th\<close>), a data
  cell (\<open>td\<close>) or anything else (stray text, another element), each with its \<open>.text\<close>.
  A record is a Python dict from header to cell text: an association list in insertion
  order, where assigning to a key already present replaces its value in place.
\<close>

datatype node = Th string | Td string | Other string

type_synonym tr = "node list"

type_synonym table = "tr list"

type_synonym row_record = "(string \<times> string) list"

fun node_text :: "node \<Rightarrow> string" where
  "node_text (Th t) = t"
| "node_text (Td t) = t"
| "node_text (Other t) = t"

fun is_th :: "node \<Rightarrow> bool" where
  "is_th (Th _) = True"
| "is_th _ = False"

fun is_td :: "node \<Rightarrow> bool" where
  "is_td (Td _) = True"
| "is_td _ = False"

text \<open>\<open>row.text\<close>: the text of all children, concatenated.\<close>

definition row_text :: "tr \<Rightarrow> string" where
  "row_text row = concat (map node_text row)"

text \<open>\<open>row.find_all('th')\<close> and \<open>row.find_all('td')\<close>, each cell given by its text.\<close>

definition find_all_th :: "tr \<Rightarrow> string list" where
  "find_all_th row = map node_text (filter is_th row)"

definition find_all_td :: "tr \<Rightarrow> string list" where
  "find_all_td row = map node_text (filter is_td row)"

definition find_all_td_th :: "tr \<Rightarrow> string list" where
  "find_all_td_th row = map node_text (filter (\<lambda>n. is_td n \<or> is_th n) row)"

text \<open>\<open>max\<close> over a sequence raises \<open>ValueError\<close> on an empty one.\<close>

fun py_max :: "nat list \<Rightarrow> error + nat" where
  "py_max [] = Inl ValueError"
| "py_max (x # xs) = Inr (fold max xs x)"

definition column_names :: "nat \<Rightarrow> string list" where
  "column_names max_cols = map (\<lambda>i. ''Column_'' @ str_nat (i + 1)) [0..<max_cols]"

text \<open>Lines 136 to 151 of \<open>_parse_table_rows_to_list\<close>: the headers before the line-break patch.\<close>

definition derive_headers :: "table \<Rightarrow> error + string list" where
  "derive_headers table =
     (let headers =
        (case table of
           [] \<Rightarrow> []
         | header_row # _ \<Rightarrow>
             (let th_cells = find_all_th header_row in
              if th_cells \<noteq> [] then map strip th_cells
              else map strip (find_all_td header_row)))
      in if headers = [] then
           (case py_max (map (\<lambda>row. length (find_all_td_th row)) table) of
              Inl e \<Rightarrow> Inl e
            | Inr max_cols \<Rightarrow> Inr (column_names max_cols))
         else Inr headers)"

text \<open>Lines 153 to 155: the patch for headers with a line break.\<close>

definition patch_headers :: "string list \<Rightarrow> string list" where
  "patch_headers headers =
     (if list_ex (\<lambda>header. newline \<in> set header) headers
      then map before_newline headers else headers)"

definition empty_value :: string where
  "empty_value = []"

text \<open>Lines 167 to 173: the dict of one row, filled header by header.\<close>

definition fill_row :: "string list \<Rightarrow> string list \<Rightarrow> row_record" where
  "fill_row headers cells =
     fold (\<lambda>(i, header) row_data.
             if i < length cells then
               (let cell_text = strip (cells ! i)
                in AList.update header (if cell_text \<noteq> [] then cell_text else empty_value) row_data)
             else AList.update header empty_value row_data)
          (enumerate 0 headers) []"

definition has_data :: "string list \<Rightarrow> bool" where
  "has_data cells = list_ex (\<lambda>cell. strip cell \<noteq> []) cells"

text \<open>Lines 159 to 175: the loop over the rows after the first.\<close>

fun rows_loop :: "string list \<Rightarrow> bool \<Rightarrow> tr list \<Rightarrow> row_record list" where
  "rows_loop headers include_blank_rows [] = []"
| "rows_loop headers include_blank_rows (row # rest) =
     (let cells = find_all_td row in
      if has_data cells \<or> include_blank_rows
      then fill_row headers cells # rows_loop headers include_blank_rows rest
      else rows_loop headers include_blank_rows rest)"

text \<open>
  \<open>_parse_table_rows_to_list\<close>. Its callers pass what \<open>select_one\<close> found, which is
  \<open>None\<close> when the page has no such table; \<open>table.find\<close> then raises \<open>AttributeError\<close>.
\<close>

definition parse_table_rows_to_list :: "table option \<Rightarrow> bool \<Rightarrow> error + row_record list" where
  "parse_table_rows_to_list table include_blank_rows =
     (case table of
        None \<Rightarrow> Inl AttributeError
      | Some t \<Rightarrow>
          (case derive_headers t of
             Inl e \<Rightarrow> Inl e
           | Inr headers \<Rightarrow> Inr (rows_loop (patch_headers headers) include_blank_rows (drop 1 t))))"

text \<open>Lines 223 to 226 of \<open>fetch_comfort_keepers_report\<close>, from the selected element on.\<close>

definition comfort_keepers_list :: "table option \<Rightarrow> error + row_record list" where
  "comfort_keepers_list report_table_element = parse_table_rows_to_list report_table_element False"

text \<open>
  Lines 283 to 293 of \<open>fetch_activity_report\<close>: the loop over the selected tables. A table
  without any row has no first row, and \<open>first_row.text\<close> raises \<open>AttributeError\<close>. Each
  section is a dict with the title as its only key.
\<close>

fun report_tables_loop :: "table list \<Rightarrow> error + (string \<times> row_record list) list list" where
  "report_tables_loop [] = Inr []"
| "report_tables_loop (table # rest) =
     (case table of
        [] \<Rightarrow> Inl AttributeError
      | first_row # remaining \<Rightarrow>
          (let this_title = strip (row_text first_row) in
           case parse_table_rows_to_list (Some remaining) False of
             Inl e \<Rightarrow> Inl e
           | Inr table_data \<Rightarrow>
               (case report_tables_loop rest of
                  Inl e \<Rightarrow> Inl e
                | Inr report_tables_processed \<Rightarrow> Inr ([(this_title, table_data)] # report_tables_processed))))"

section \<open>Auxiliary notions for the statements\<close>

text \<open>
  The text a row's cell list gives at header position \<open>i\<close>: the trimmed text of the cell
  there, the empty string when the row has no cell at that position.
\<close>

definition cell_value :: "string list \<Rightarrow> nat \<Rightarrow> string" where
  "cell_value cells i = (if i < length cells then strip (cells ! i) else [])"

section \<open>Facts about the string functions\<close>

lemma str_contains_iff: "str_contains p s \<longleftrightarrow> (\<exists>a b. s = a @ p @ b)"
proof (induction s)
  case Nil
  then show ?case by auto
next
  case (Cons c cs)
  have "(\<exists>a b. c # cs = a @ p @ b) \<longleftrightarrow> (\<exists>b. c # cs = p @ b) \<or> (\<exists>a b. cs = a @ p @ b)"
  proof
    assume "\<exists>a b. c # cs = a @ p @ b"
    then obtain a b where ab: "c # cs = a @ p @ b" by blast
    show "(\<exists>b. c # cs = p @ b) \<or> (\<exists>a b. cs = a @ p @ b)"
    proof (cases a)
      case Nil
      with ab show ?thesis by auto
    next
      case (Cons x a')
      with ab have "cs = a' @ p @ b" by simp
      then show ?thesis by blast
    qed
  next
    assume "(\<exists>b. c # cs = p @ b) \<or> (\<exists>a b. cs = a @ p @ b)"
    then show "\<exists>a b. c # cs = a @ p @ b"
    proof
      assume "\<exists>b. c # cs = p @ b"
      then obtain b where "c # cs = [] @ p @ b" by auto
      then show ?thesis by blast
    next
      assume "\<exists>a b. cs = a @ p @ b"
      then obtain a b where "cs = a @ p @ b" by blast
      then have "c # cs = (c # a) @ p @ b" by simp
      then show ?thesis by blast
    qed
  qed
  moreover have "take (length p) (c # cs) = p \<longleftrightarrow> (\<exists>b. c # cs = p @ b)"
    by (metis append_eq_conv_conj)
  ultimately show ?case using Cons.IH by simp
qed

text \<open>The second marker occurs inside the first, so the first test never decides alone.\<close>

lemma login_div_contains_loginApp: "str_contains ''loginApp'' login_div"
  by (simp add: login_div_def)

lemma str_contains_trans: "str_contains p q \<Longrightarrow> str_contains q s \<Longrightarrow> str_contains p s"
  unfolding str_contains_iff by (metis append.assoc)

section \<open>The response classifier: claims\<close>

text \<open>
  Claim C1. A response with status 200 whose body contains the login-page marker (the
  substring \<open>loginApp\<close>, or the login-page div) makes the classifier raise the
  authentication error; the body is not returned, whatever the status says.
\<close>

theorem login_marker_is_auth_failure:
  assumes "status r = 200"
    and "str_contains login_div (body r) \<or> str_contains ''loginApp'' (body r)"
  shows "handle_response name r =
           (Inl (IntegrationAuthError (''ERSP Authentication failed for '' @ url r)),
            r\<lparr>text_calls := Suc (text_calls r)\<rparr>)"
  using assms by (simp add: handle_response_def response_text_def)

theorem login_marker_is_auth_failure_witness:
  "handle_response ''ersp''
     \<lparr>status = 200, reason = ''OK'', url = ''https://ck964.ersp.biz/index.cfm'', headers_str = ''{}'',
      body = ''<body ng-app=loginApp>'', text_calls = 0\<rparr> =
   (Inl (IntegrationAuthError ''ERSP Authentication failed for https://ck964.ersp.biz/index.cfm''),
     \<lparr>status = 200, reason = ''OK'', url = ''https://ck964.ersp.biz/index.cfm'', headers_str = ''{}'',
      body = ''<body ng-app=loginApp>'', text_calls = 1\<rparr>)"
  using login_marker_is_auth_failure
    [of "\<lparr>status = 200, reason = ''OK'', url = ''https://ck964.ersp.biz/index.cfm'', headers_str = ''{}'',
      body = ''<body ng-app=loginApp>'', text_calls = 0\<rparr>" "''ersp''"]
  by simp

text \<open>
  Claim C2, as the claim states it, fails: the failure raised for status 302 and the one
  raised for any other status outside 200 and 4xx are of the same exception class.
\<close>

theorem redirect_shares_api_error_class_counterexample:
  "fst (handle_response ''ersp''
      \<lparr>status = 302, reason = ''Found'', url = ''https://ck964.ersp.biz/index.cfm'', headers_str = ''{}'',
       body = ''moved'', text_calls = 0\<rparr>)
     = Inl (IntegrationAPIError ''ersp''
         (''forced redirection caught to https://ck964.ersp.biz/index.cfm. '' @ [newline] @ ''moved'') None)
   \<and> fst (handle_response ''ersp''
      \<lparr>status = 500, reason = ''Internal Server Error'', url = ''https://ck964.ersp.biz/index.cfm'',
       headers_str = ''{}'', body = ''oops'', text_calls = 0\<rparr>)
     = Inl (IntegrationAPIError ''ersp'' ''ersp: 500 - {}'' (Some 500))
   \<and> class_of (IntegrationAPIError ''ersp''
         (''forced redirection caught to https://ck964.ersp.biz/index.cfm. '' @ [newline] @ ''moved'') None)
     = class_of (IntegrationAPIError ''ersp'' ''ersp: 500 - {}'' (Some 500))"
  by code_simp

text \<open>
  Claim C2, amended. A response with status exactly 302 makes the classifier raise an
  \<open>IntegrationAPIError\<close> whose message names the response's URL and holds the body, and
  which carries no status code. Its class is the API error's, the class of the generic
  failure, and not the authentication error's raised for 4xx. No response with another
  status yields the same failure value: the generic failure always carries its status code.
\<close>

theorem redirect_is_api_error:
  assumes "status r = 302"
  shows "handle_response name r =
           (Inl (IntegrationAPIError name
                  (''forced redirection caught to '' @ url r @ ''. '' @ [newline] @ body r) None),
            r\<lparr>text_calls := Suc (text_calls r)\<rparr>)
         \<and> class_of (IntegrationAPIError name
                  (''forced redirection caught to '' @ url r @ ''. '' @ [newline] @ body r) None) = APIErrorClass
         \<and> (\<forall>r' name'. status r' \<noteq> 302 \<longrightarrow> fst (handle_response name' r') \<noteq> fst (handle_response name r))
         \<and> (\<forall>r'. status r' \<noteq> 200 \<and> \<not> (400 \<le> status r' \<and> status r' < 500) \<and> status r' \<noteq> 302 \<longrightarrow>
               fst (handle_response name r') =
                 Inl (IntegrationAPIError name (''ersp: '' @ str_int (status r') @ '' - '' @ headers_str r')
                        (Some (status r'))))
         \<and> (\<forall>r'. 400 \<le> status r' \<and> status r' < 500 \<longrightarrow>
               fst (handle_response name r') =
                 Inl (IntegrationAuthError
                   (''ERSP: '' @ str_int (status r') @ '' - '' @ reason r' @ '' '' @ [newline] @ body r')))"
  using assms by (auto simp add: handle_response_def response_text_def Let_def)

theorem redirect_is_api_error_witness:
  "handle_response ''ersp''
     \<lparr>status = 302, reason = ''Found'', url = ''https://ck964.ersp.biz/login'', headers_str = ''{}'',
      body = ''moved'', text_calls = 0\<rparr>
   = (Inl (IntegrationAPIError ''ersp''
            (''forced redirection caught to https://ck964.ersp.biz/login. '' @ [newline] @ ''moved'') None),
      \<lparr>status = 302, reason = ''Found'', url = ''https://ck964.ersp.biz/login'', headers_str = ''{}'',
       body = ''moved'', text_calls = 1\<rparr>)
   \<and> fst (handle_response ''ersp''
        \<lparr>status = 503, reason = ''Service Unavailable'', url = ''https://ck964.ersp.biz/login'',
         headers_str = ''{}'', body = ''down'', text_calls = 0\<rparr>)
     \<noteq> fst (handle_response ''ersp''
        \<lparr>status = 302, reason = ''Found'', url = ''https://ck964.ersp.biz/login'', headers_str = ''{}'',
         body = ''moved'', text_calls = 0\<rparr>)"
proof -
  let ?r = "\<lparr>status = 302, reason = ''Found'', url = ''https://ck964.ersp.biz/login'', headers_str = ''{}'',
      body = ''moved'', text_calls = 0\<rparr>"
  let ?r' = "\<lparr>status = 503, reason = ''Service Unavailable'', url = ''https://ck964.ersp.biz/login'',
         headers_str = ''{}'', body = ''down'', text_calls = 0\<rparr>"
  have h: "status ?r = 302" by simp
  note t = redirect_is_api_error [OF h, of "''ersp''"]
  from t have a: "handle_response ''ersp'' ?r =
           (Inl (IntegrationAPIError ''ersp''
                  (''forced redirection caught to '' @ url ?r @ ''. '' @ [newline] @ body ?r) None),
            ?r\<lparr>text_calls := Suc (text_calls ?r)\<rparr>)"
    by (rule conjunct1)
  from t have "\<forall>r' name'. status r' \<noteq> 302 \<longrightarrow> fst (handle_response name' r') \<noteq> fst (handle_response ''ersp'' ?r)"
    by blast
  then have "status ?r' \<noteq> 302 \<longrightarrow> fst (handle_response ''ersp'' ?r') \<noteq> fst (handle_response ''ersp'' ?r)"
    by blast
  then have b: "fst (handle_response ''ersp'' ?r') \<noteq> fst (handle_response ''ersp'' ?r)"
    by simp
  from a have a': "handle_response ''ersp'' ?r
   = (Inl (IntegrationAPIError ''ersp''
            (''forced redirection caught to https://ck964.ersp.biz/login. '' @ [newline] @ ''moved'') None),
      \<lparr>status = 302, reason = ''Found'', url = ''https://ck964.ersp.biz/login'', headers_str = ''{}'',
       body = ''moved'', text_calls = 1\<rparr>)"
    by simp
  from a' b show ?thesis by (rule conjI)
qed

text \<open>
  Claim C9, as the claim states it, fails: on the success path the body text is requested
  twice, once for the marker test and once for the returned value.
\<close>

theorem body_read_twice_counterexample:
  "text_calls (snd (handle_response ''ersp''
      \<lparr>status = 200, reason = ''OK'', url = ''https://ck964.ersp.biz/index.cfm'', headers_str = ''{}'',
       body = ''<table></table>'', text_calls = 0\<rparr>)) = 2"
  by code_simp

text \<open>
  Claim C9, amended. The classifier requests the body text at most twice: twice on the
  success path, once when the login marker is found, once for a 4xx status and for status
  302 (where the message is built from that one read), and never for any other status. On
  the success path the returned text is the body, unmodified, and the body itself is never
  changed.
\<close>

theorem body_read_counts:
  "text_calls (snd (handle_response name r)) =
     text_calls r +
       (if status r = 200
        then (if str_contains login_div (body r) \<or> str_contains ''loginApp'' (body r) then 1 else 2)
        else if (400 \<le> status r \<and> status r < 500) \<or> status r = 302 then 1 else 0)
   \<and> (\<forall>t. fst (handle_response name r) = Inr t \<longrightarrow>
         t = body r \<and> status r = 200 \<and> text_calls (snd (handle_response name r)) = text_calls r + 2)
   \<and> (status r = 200 \<and> \<not> str_contains ''loginApp'' (body r) \<longrightarrow> fst (handle_response name r) = Inr (body r))
   \<and> body (snd (handle_response name r)) = body r"
  using login_div_contains_loginApp str_contains_trans
  by (auto simp add: handle_response_def response_text_def Let_def)

theorem body_read_counts_witness:
  "text_calls (snd (handle_response ''ersp''
      \<lparr>status = 404, reason = ''Not Found'', url = ''https://ck964.ersp.biz/index.cfm'', headers_str = ''{}'',
       body = ''gone'', text_calls = 0\<rparr>)) = 1
   \<and> fst (handle_response ''ersp''
      \<lparr>status = 200, reason = ''OK'', url = ''https://ck964.ersp.biz/index.cfm'', headers_str = ''{}'',
       body = ''<p>report</p>'', text_calls = 0\<rparr>) = Inr ''<p>report</p>''"
proof -
  let ?r = "\<lparr>status = 404, reason = ''Not Found'', url = ''https://ck964.ersp.biz/index.cfm'', headers_str = ''{}'',
       body = ''gone'', text_calls = 0\<rparr>"
  let ?ok = "\<lparr>status = 200, reason = ''OK'', url = ''https://ck964.ersp.biz/index.cfm'', headers_str = ''{}'',
       body = ''<p>report</p>'', text_calls = 0\<rparr>"
  have a: "text_calls (snd (handle_response ''ersp'' ?r)) = 1"
    using body_read_counts [of "''ersp''" ?r] by simp
  have h: "status ?ok = 200 \<and> \<not> str_contains ''loginApp'' (body ?ok)" by simp
  have "status ?ok = 200 \<and> \<not> str_contains ''loginApp'' (body ?ok)
          \<longrightarrow> fst (handle_response ''ersp'' ?ok) = Inr (body ?ok)"
    using body_read_counts [of "''ersp''" ?ok] by blast
  with h have "fst (handle_response ''ersp'' ?ok) = Inr (body ?ok)" by blast
  then have b: "fst (handle_response ''ersp'' ?ok) = Inr ''<p>report</p>''" by simp
  from a b show ?thesis by (rule conjI)
qed

section \<open>Facts about the table functions\<close>

lemma fill_row_alt:
  "fill_row headers cells =
     fold (\<lambda>(i, header). AList.update header (cell_value cells i)) (enumerate 0 headers) []"
proof -
  have eq: "(\<lambda>(i, header) row_data.
             if i < length cells then
               (let cell_text = strip (cells ! i)
                in AList.update header (if cell_text \<noteq> [] then cell_text else empty_value) row_data)
             else AList.update header empty_value row_data)
        = (\<lambda>(i, header). AList.update header (cell_value cells i))"
    by (auto simp add: fun_eq_iff cell_value_def empty_value_def Let_def)
  show ?thesis unfolding fill_row_def eq by (rule refl)
qed

lemma fold_update_keys:
  "fst ` set (fold (\<lambda>(i, header). AList.update header (g i)) (enumerate n hs) acc) = set hs \<union> fst ` set acc"
  by (induction hs arbitrary: n acc) (auto simp add: dom_update)

lemma fold_update_distinct:
  "distinct (map fst acc) \<Longrightarrow>
   distinct (map fst (fold (\<lambda>(i, header). AList.update header (g i)) (enumerate n hs) acc))"
  by (induction hs arbitrary: n acc) (auto simp add: distinct_update)

lemma fold_update_other:
  "k \<notin> set hs \<Longrightarrow>
   map_of (fold (\<lambda>(i, header). AList.update header (g i)) (enumerate n hs) acc) k = map_of acc k"
  by (induction hs arbitrary: n acc) (auto simp add: update_conv')

lemma fold_update_last:
  "i < length hs \<Longrightarrow> (\<forall>j. i < j \<and> j < length hs \<longrightarrow> hs ! j \<noteq> hs ! i) \<Longrightarrow>
   map_of (fold (\<lambda>(i, header). AList.update header (g i)) (enumerate n hs) acc) (hs ! i) = Some (g (n + i))"
proof (induction hs arbitrary: n acc i)
  case Nil
  then show ?case by simp
next
  case (Cons h hs)
  show ?case
  proof (cases i)
    case 0
    have "h \<notin> set hs"
    proof
      assume "h \<in> set hs"
      then obtain j where "j < length hs" "hs ! j = h" by (auto simp add: in_set_conv_nth)
      with Cons.prems(2) 0 show False by (auto dest: spec [of _ "Suc j"])
    qed
    then show ?thesis using 0 by (simp add: fold_update_other update_conv')
  next
    case (Suc i')
    have "i' < length hs" using Cons.prems(1) Suc by simp
    moreover have "\<forall>j. i' < j \<and> j < length hs \<longrightarrow> hs ! j \<noteq> hs ! i'"
    proof (intro allI impI)
      fix j assume "i' < j \<and> j < length hs"
      with Cons.prems(2) Suc show "hs ! j \<noteq> hs ! i'" by (auto dest: spec [of _ "Suc j"])
    qed
    ultimately show ?thesis using Cons.IH [of i' "Suc n"] Suc by simp
  qed
qed

lemma fill_row_keys: "fst ` set (fill_row hs cells) = set hs"
  by (simp add: fill_row_alt fold_update_keys)

lemma fill_row_distinct: "distinct (map fst (fill_row hs cells))"
  by (simp add: fill_row_alt fold_update_distinct)

lemma fill_row_value:
  "i < length hs \<Longrightarrow> (\<forall>j. i < j \<and> j < length hs \<longrightarrow> hs ! j \<noteq> hs ! i) \<Longrightarrow>
   map_of (fill_row hs cells) (hs ! i) = Some (cell_value cells i)"
  using fold_update_last [of i hs "cell_value cells" 0 "[]"] by (simp add: fill_row_alt)

lemma fill_row_cong:
  "(\<forall>i < length hs. cell_value cells i = cell_value cells' i) \<Longrightarrow> fill_row hs cells = fill_row hs cells'"
proof -
  have gen: "\<And>n acc. (\<forall>i < length hs. g (n + i) = g' (n + i)) \<Longrightarrow>
       fold (\<lambda>(i, header). AList.update header (g i)) (enumerate n hs) acc
     = fold (\<lambda>(i, header). AList.update header (g' i)) (enumerate n hs) acc" for g g' :: "nat \<Rightarrow> string"
  proof (induction hs)
    case Nil
    then show ?case by simp
  next
    case (Cons h hs)
    have "g n = g' n" using Cons.prems by force
    moreover have "\<forall>i<length hs. g (Suc n + i) = g' (Suc n + i)" using Cons.prems by force
    ultimately show ?case using Cons.IH [of "Suc n"] by simp
  qed
  assume "\<forall>i < length hs. cell_value cells i = cell_value cells' i"
  then show ?thesis using gen [of "cell_value cells" 0 "cell_value cells'" "[]"] by (simp add: fill_row_alt)
qed

lemma fill_row_take: "fill_row hs cells = fill_row hs (take (length hs) cells)"
  by (rule fill_row_cong) (simp add: cell_value_def)

lemma fold_update_const:
  "(\<forall>i < length hs. g (n + i) = c) \<Longrightarrow> k \<in> set hs \<Longrightarrow>
   map_of (fold (\<lambda>(i, header). AList.update header (g i)) (enumerate n hs) acc) k = Some c"
proof (induction hs arbitrary: n acc)
  case Nil
  then show ?case by simp
next
  case (Cons h hs)
  have rest: "\<forall>i<length hs. g (Suc n + i) = c" using Cons.prems(1) by force
  show ?case
  proof (cases "k \<in> set hs")
    case True
    then show ?thesis using Cons.IH [of "Suc n"] rest by simp
  next
    case False
    then have "k = h" using Cons.prems(2) by simp
    moreover have "g n = c" using Cons.prems(1) by force
    ultimately show ?thesis using False by (simp add: fold_update_other update_conv')
  qed
qed

lemma cell_value_blank: "\<forall>c \<in> set cells. strip c = [] \<Longrightarrow> cell_value cells i = []"
  by (simp add: cell_value_def)

lemma fill_row_blank:
  "\<forall>c \<in> set cells. strip c = [] \<Longrightarrow> h \<in> set hs \<Longrightarrow> map_of (fill_row hs cells) h = Some []"
  using fold_update_const [of hs "cell_value cells" 0 "[]" h "[]"]
  by (simp add: fill_row_alt cell_value_blank)

lemma has_data_blank: "has_data cells \<longleftrightarrow> \<not> (\<forall>c \<in> set cells. strip c = [])"
  by (auto simp add: has_data_def list_ex_iff)

lemma rows_loop_filter:
  "rows_loop hs incl rows =
     map (\<lambda>row. fill_row hs (find_all_td row)) (filter (\<lambda>row. has_data (find_all_td row) \<or> incl) rows)"
  by (induction rows) (auto simp add: Let_def)

lemma rows_loop_append: "rows_loop hs incl (xs @ ys) = rows_loop hs incl xs @ rows_loop hs incl ys"
  by (simp add: rows_loop_filter)

lemma py_max_Cons: "py_max (x # xs) = Inr (Max (set (x # xs)))"
  using Max.set_eq_fold [of x xs] by simp

lemma column_names_alt: "column_names n = map (\<lambda>i. ''Column_'' @ str_nat i) [1..<Suc n]"
proof -
  have "map (\<lambda>i. ''Column_'' @ str_nat (i + 1)) [0..<n] = map ((\<lambda>i. ''Column_'' @ str_nat i) \<circ> Suc) [0..<n]"
    by simp
  also have "\<dots> = map (\<lambda>i. ''Column_'' @ str_nat i) (map Suc [0..<n])"
    by (simp only: map_map)
  also have "map Suc [0..<n] = [1..<Suc n]"
    by (simp add: map_Suc_upt)
  finally show ?thesis by (simp add: column_names_def)
qed

lemma derive_headers_Cons:
  "derive_headers (row # rest) =
     (if find_all_th row \<noteq> [] then Inr (map strip (find_all_th row))
      else if find_all_td row \<noteq> [] then Inr (map strip (find_all_td row))
      else Inr (column_names (Max ((\<lambda>r. length (find_all_td_th r)) ` set (row # rest)))))"
  using py_max_Cons [of "length (find_all_td_th row)" "map (\<lambda>r. length (find_all_td_th r)) rest"]
  by (simp add: derive_headers_def Let_def)

lemma derive_headers_Nil: "derive_headers [] = Inl ValueError"
  by (simp add: derive_headers_def)

lemma derive_headers_total: "\<exists>hs. derive_headers (row # rest) = Inr hs"
  by (simp add: derive_headers_Cons)

lemma parse_Cons:
  "derive_headers (header_row # rows) = Inr derived \<Longrightarrow>
   parse_table_rows_to_list (Some (header_row # rows)) incl =
     Inr (rows_loop (patch_headers derived) incl rows)"
  by (simp add: parse_table_rows_to_list_def)

text \<open>
  A table without any row passes the test on its first row with no headers, and the
  fallback then takes \<open>max\<close> over no rows at all. In the multi-table loop the same
  happens to a table that has its title row only, once that row is removed.
\<close>

lemma zero_row_table_raises: "parse_table_rows_to_list (Some []) incl = Inl ValueError"
  by (simp add: parse_table_rows_to_list_def derive_headers_Nil)

lemma title_only_table_raises: "report_tables_loop ([first_row] # rest) = Inl ValueError"
  by (simp add: zero_row_table_raises)

lemma rowless_table_raises: "report_tables_loop ([] # rest) = Inl AttributeError"
  by simp

lemma length_rows_loop: "length (rows_loop hs incl rows) \<le> length rows"
  by (simp add: rows_loop_filter)

lemma spec_example:
  "parse_table_rows_to_list (Some [[Th ''A'', Th ''B''], [Td ''x'', Td ''y''], [Td ''z'']]) False
     = Inr [[(''A'', ''x''), (''B'', ''y'')], [(''A'', ''z''), (''B'', '''')]]"
  by code_simp






lemma strip_Nil: "strip [] = []"
  by (simp add: strip_def)

lemma cell_value_padded: "cell_value (cells @ replicate n []) i = cell_value cells i"
  by (simp add: cell_value_def nth_append strip_Nil)

lemma fill_row_padded: "fill_row hs (cells @ replicate n []) = fill_row hs cells"
  by (rule fill_row_cong) (simp add: cell_value_padded)

lemma fold_update_const_from:
  "k \<in> set (drop m hs) \<Longrightarrow> (\<forall>i. m \<le> i \<and> i < length hs \<longrightarrow> g (n + i) = c) \<Longrightarrow>
   map_of (fold (\<lambda>(i, header). AList.update header (g i)) (enumerate n hs) acc) k = Some c"
proof (induction hs arbitrary: n acc m)
  case Nil
  then show ?case by simp
next
  case (Cons h hs)
  show ?case
  proof (cases m)
    case 0
    have "\<forall>i < length (h # hs). g (n + i) = c" using Cons.prems(2) 0 by simp
    moreover have "k \<in> set (h # hs)" using Cons.prems(1) 0 by simp
    ultimately show ?thesis by (rule fold_update_const)
  next
    case (Suc m')
    have k: "k \<in> set (drop m' hs)" using Cons.prems(1) Suc by simp
    have "\<forall>i. m' \<le> i \<and> i < length hs \<longrightarrow> g (Suc n + i) = c"
    proof (intro allI impI)
      fix i assume "m' \<le> i \<and> i < length hs"
      then have "m \<le> Suc i \<and> Suc i < length (h # hs)" using Suc by simp
      then have "g (n + Suc i) = c" using Cons.prems(2) by blast
      then show "g (Suc n + i) = c" by simp
    qed
    from Cons.IH [OF k this] show ?thesis by simp
  qed
qed

lemma fill_row_missing_cell:
  assumes "length cells \<le> i" and "i < length hs"
  shows "map_of (fill_row hs cells) (hs ! i) = Some []"
proof -
  have "hs ! i \<in> set (drop (length cells) hs)"
    using assms by (auto simp add: in_set_conv_nth intro!: exI [of _ "i - length cells"])
  moreover have "\<forall>j. length cells \<le> j \<and> j < length hs \<longrightarrow> cell_value cells (0 + j) = []"
    by (simp add: cell_value_def)
  ultimately show ?thesis
    unfolding fill_row_alt by (rule fold_update_const_from)
qed

lemma report_tables_loop_rowless:
  "\<forall>t \<in> set tables. 2 \<le> length t \<Longrightarrow> report_tables_loop (tables @ [] # rest) = Inl AttributeError"
proof (induction tables)
  case Nil
  then show ?case by simp
next
  case (Cons t ts)
  from Cons.prems have "2 \<le> length t" by simp
  then obtain first_row header_row rows where t: "t = first_row # header_row # rows"
    by (cases t; cases "tl t") auto
  obtain derived where d: "derive_headers (header_row # rows) = Inr derived"
    using derive_headers_total by blast
  have p: "parse_table_rows_to_list (Some (header_row # rows)) False
             = Inr (rows_loop (patch_headers derived) False rows)"
    using d by (rule parse_Cons)
  from Cons.prems have "\<forall>t \<in> set ts. 2 \<le> length t" by simp
  from Cons.IH [OF this] have "report_tables_loop (ts @ [] # rest) = Inl AttributeError" .
  then show ?case using t p by simp
qed

section \<open>Table extraction: claims\<close>

text \<open>
  Claim C3, as the claim states it, fails: when the page has no report table, the selection
  yields \<open>None\<close> and the extraction raises \<open>AttributeError\<close> instead of giving an empty
  result.
\<close>

theorem missing_table_raises_counterexample:
  "comfort_keepers_list None = Inl AttributeError"
  by (simp add: comfort_keepers_list_def parse_table_rows_to_list_def)

text \<open>
  Claim C3, amended. For every table that is present and has at least one row, the
  extraction raises no error: its result is the list of the fillings of the header set
  from the data cells of the rows that have data (of all rows after the first when blank
  rows are requested). However many cells a row has, its record is keyed by the header
  set: a row padded with empty cells gives the same record, the cells beyond the header
  count do not change it, and a header position the row has no cell for holds the empty
  string. A table with its header row only gives the empty record sequence; a missing table
  raises \<open>AttributeError\<close>.
\<close>

theorem present_table_never_raises:
  "(\<exists>derived. derive_headers (header_row # rows) = Inr derived \<and>
      parse_table_rows_to_list (Some (header_row # rows)) incl =
        Inr (map (\<lambda>row. fill_row (patch_headers derived) (find_all_td row))
               (filter (\<lambda>row. has_data (find_all_td row) \<or> incl) rows)) \<and>
      (\<forall>cells.
          fst ` set (fill_row (patch_headers derived) cells) = set (patch_headers derived)
        \<and> (\<forall>n. fill_row (patch_headers derived) (cells @ replicate n []) = fill_row (patch_headers derived) cells)
        \<and> fill_row (patch_headers derived) (take (length (patch_headers derived)) cells)
            = fill_row (patch_headers derived) cells
        \<and> (\<forall>i. length cells \<le> i \<and> i < length (patch_headers derived) \<longrightarrow>
               map_of (fill_row (patch_headers derived) cells) (patch_headers derived ! i) = Some [])))
   \<and> parse_table_rows_to_list (Some [header_row]) incl = Inr []
   \<and> parse_table_rows_to_list None incl = Inl AttributeError"
proof (intro conjI)
  obtain derived where d: "derive_headers (header_row # rows) = Inr derived"
    using derive_headers_total by blast
  have p: "parse_table_rows_to_list (Some (header_row # rows)) incl =
        Inr (map (\<lambda>row. fill_row (patch_headers derived) (find_all_td row))
               (filter (\<lambda>row. has_data (find_all_td row) \<or> incl) rows))"
    using parse_Cons [OF d] by (simp add: rows_loop_filter)
  have f: "\<forall>cells.
          fst ` set (fill_row (patch_headers derived) cells) = set (patch_headers derived)
        \<and> (\<forall>n. fill_row (patch_headers derived) (cells @ replicate n []) = fill_row (patch_headers derived) cells)
        \<and> fill_row (patch_headers derived) (take (length (patch_headers derived)) cells)
            = fill_row (patch_headers derived) cells
        \<and> (\<forall>i. length cells \<le> i \<and> i < length (patch_headers derived) \<longrightarrow>
               map_of (fill_row (patch_headers derived) cells) (patch_headers derived ! i) = Some [])"
    using fill_row_take [of "patch_headers derived"]
    by (simp add: fill_row_keys fill_row_padded fill_row_missing_cell)
  from d p f show "\<exists>derived. derive_headers (header_row # rows) = Inr derived \<and>
      parse_table_rows_to_list (Some (header_row # rows)) incl =
        Inr (map (\<lambda>row. fill_row (patch_headers derived) (find_all_td row))
               (filter (\<lambda>row. has_data (find_all_td row) \<or> incl) rows)) \<and>
      (\<forall>cells.
          fst ` set (fill_row (patch_headers derived) cells) = set (patch_headers derived)
        \<and> (\<forall>n. fill_row (patch_headers derived) (cells @ replicate n []) = fill_row (patch_headers derived) cells)
        \<and> fill_row (patch_headers derived) (take (length (patch_headers derived)) cells)
            = fill_row (patch_headers derived) cells
        \<and> (\<forall>i. length cells \<le> i \<and> i < length (patch_headers derived) \<longrightarrow>
               map_of (fill_row (patch_headers derived) cells) (patch_headers derived ! i) = Some []))"
    by blast
next
  obtain derived1 where d1: "derive_headers [header_row] = Inr derived1"
    using derive_headers_total by blast
  show "parse_table_rows_to_list (Some [header_row]) incl = Inr []"
    using parse_Cons [OF d1] by simp
next
  show "parse_table_rows_to_list None incl = Inl AttributeError"
    by (simp add: parse_table_rows_to_list_def)
qed

theorem present_table_never_raises_witness:
  "parse_table_rows_to_list
     (Some [[Th ''A'', Th ''B''], [Td '' x ''], [Td ''p'', Td ''q'', Td ''r''], [Td '' '']]) False
     = Inr [[(''A'', ''x''), (''B'', [])], [(''A'', ''p''), (''B'', ''q'')]]
   \<and> parse_table_rows_to_list (Some [[Th ''A'', Th ''B'']]) False = Inr []
   \<and> parse_table_rows_to_list None False = Inl AttributeError"
proof -
  let ?h = "[Th ''A'', Th ''B'']"
  let ?rows = "[[Td '' x ''], [Td ''p'', Td ''q'', Td ''r''], [Td '' '']]"
  note t = present_table_never_raises [of ?h ?rows False]
  have d: "derive_headers (?h # ?rows) = Inr [''A'', ''B'']" by code_simp
  from t obtain derived where
    d': "derive_headers (?h # ?rows) = Inr derived" and
    p: "parse_table_rows_to_list (Some (?h # ?rows)) False =
        Inr (map (\<lambda>row. fill_row (patch_headers derived) (find_all_td row))
               (filter (\<lambda>row. has_data (find_all_td row) \<or> False) ?rows))"
    by blast
  from d d' have "derived = [''A'', ''B'']" by simp
  with p have "parse_table_rows_to_list (Some (?h # ?rows)) False =
        Inr (map (\<lambda>row. fill_row (patch_headers [''A'', ''B'']) (find_all_td row))
               (filter (\<lambda>row. has_data (find_all_td row) \<or> False) ?rows))"
    by simp
  also have "\<dots> = Inr [[(''A'', ''x''), (''B'', [])], [(''A'', ''p''), (''B'', ''q'')]]"
    by code_simp
  finally have a: "parse_table_rows_to_list (Some (?h # ?rows)) False
     = Inr [[(''A'', ''x''), (''B'', [])], [(''A'', ''p''), (''B'', ''q'')]]" .
  from t have b: "parse_table_rows_to_list (Some [?h]) False = Inr []" by blast
  from t have c: "parse_table_rows_to_list None False = Inl AttributeError" by blast
  from a b c show ?thesis by blast
qed

text \<open>
  Claim C4, as the claim states it, fails where a header name repeats: with the headers
  \<open>A, A\<close> and the row \<open>x, y\<close> the record holds \<open>y\<close> under \<open>A\<close>, so the value for header
  position 0 is not the text of the cell at position 0.
\<close>

theorem duplicate_header_overwrites_counterexample:
  "parse_table_rows_to_list (Some [[Th ''A'', Th ''A''], [Td ''x'', Td ''y'']]) False = Inr [[(''A'', ''y'')]]
   \<and> map_of [(''A'', ''y'')] ([''A'', ''A''] ! 0) \<noteq> Some (cell_value [''x'', ''y''] 0)"
  by code_simp

text \<open>
  Claim C4, amended. Every emitted record is the filling of the table's header set from the
  data cells of its row, its key set is the header set whatever the number of cells, and
  cells beyond the header count are ignored. For each header position whose name does not
  occur again at a later position, the value is the trimmed text of the cell at that
  position, the empty string when the row has no such cell (a repeated name keeps the value
  of its last position). Header \<open>A, B\<close> with the rows \<open>(x, y)\<close> and \<open>(z)\<close> gives the
  records \<open>A: x, B: y\<close> and \<open>A: z, B:\<close> empty.
\<close>

theorem records_keyed_by_header_set:
  assumes "derive_headers (header_row # rows) = Inr derived"
  shows "parse_table_rows_to_list (Some (header_row # rows)) incl =
           Inr (map (\<lambda>row. fill_row (patch_headers derived) (find_all_td row))
                  (filter (\<lambda>row. has_data (find_all_td row) \<or> incl) rows))
         \<and> (\<forall>cells.
               fst ` set (fill_row (patch_headers derived) cells) = set (patch_headers derived)
             \<and> distinct (map fst (fill_row (patch_headers derived) cells))
             \<and> fill_row (patch_headers derived) cells
                 = fill_row (patch_headers derived) (take (length (patch_headers derived)) cells)
             \<and> (\<forall>i < length (patch_headers derived).
                   (\<forall>j. i < j \<and> j < length (patch_headers derived)
                        \<longrightarrow> patch_headers derived ! j \<noteq> patch_headers derived ! i) \<longrightarrow>
                   map_of (fill_row (patch_headers derived) cells) (patch_headers derived ! i)
                     = Some (cell_value cells i)))
         \<and> parse_table_rows_to_list (Some [[Th ''A'', Th ''B''], [Td ''x'', Td ''y''], [Td ''z'']]) False
             = Inr [[(''A'', ''x''), (''B'', ''y'')], [(''A'', ''z''), (''B'', '''')]]"
proof (intro conjI allI impI)
  show "parse_table_rows_to_list (Some (header_row # rows)) incl =
           Inr (map (\<lambda>row. fill_row (patch_headers derived) (find_all_td row))
                  (filter (\<lambda>row. has_data (find_all_td row) \<or> incl) rows))"
    using parse_Cons [OF assms] by (simp add: rows_loop_filter)
next
  fix cells
  show "fst ` set (fill_row (patch_headers derived) cells) = set (patch_headers derived)"
    by (rule fill_row_keys)
  show "distinct (map fst (fill_row (patch_headers derived) cells))"
    by (rule fill_row_distinct)
  show "fill_row (patch_headers derived) cells
          = fill_row (patch_headers derived) (take (length (patch_headers derived)) cells)"
    by (rule fill_row_take)
next
  fix cells i
  assume "i < length (patch_headers derived)"
    and "\<forall>j. i < j \<and> j < length (patch_headers derived)
            \<longrightarrow> patch_headers derived ! j \<noteq> patch_headers derived ! i"
  then show "map_of (fill_row (patch_headers derived) cells) (patch_headers derived ! i) = Some (cell_value cells i)"
    by (rule fill_row_value)
next
  show "parse_table_rows_to_list (Some [[Th ''A'', Th ''B''], [Td ''x'', Td ''y''], [Td ''z'']]) False
             = Inr [[(''A'', ''x''), (''B'', ''y'')], [(''A'', ''z''), (''B'', '''')]]"
    by (rule spec_example)
qed

theorem records_keyed_by_header_set_witness:
  "parse_table_rows_to_list (Some [[Th ''A'', Th ''B''], [Td ''x'', Td ''y'', Td ''extra''], [Td '' z '']]) False
     = Inr [[(''A'', ''x''), (''B'', ''y'')], [(''A'', ''z''), (''B'', '''')]]
   \<and> fst ` set (fill_row (patch_headers [''A'', ''B'']) ['' z '']) = {''A'', ''B''}
   \<and> map_of (fill_row (patch_headers [''A'', ''B'']) ['' z '']) ''A'' = Some ''z''
   \<and> map_of (fill_row (patch_headers [''A'', ''B'']) ['' z '']) ''B'' = Some ''''"
proof -
  let ?h = "[Th ''A'', Th ''B'']"
  let ?rows = "[[Td ''x'', Td ''y'', Td ''extra''], [Td '' z '']]"
  have d: "derive_headers (?h # ?rows) = Inr [''A'', ''B'']" by code_simp
  note t = records_keyed_by_header_set [OF d, of False]
  have hs: "patch_headers [''A'', ''B''] = [''A'', ''B'']" by code_simp
  from t have "parse_table_rows_to_list (Some (?h # ?rows)) False =
           Inr (map (\<lambda>row. fill_row (patch_headers [''A'', ''B'']) (find_all_td row))
                  (filter (\<lambda>row. has_data (find_all_td row) \<or> False) ?rows))"
    by (rule conjunct1)
  also have "\<dots> = Inr [[(''A'', ''x''), (''B'', ''y'')], [(''A'', ''z''), (''B'', '''')]]"
    by code_simp
  finally have a: "parse_table_rows_to_list (Some (?h # ?rows)) False
     = Inr [[(''A'', ''x''), (''B'', ''y'')], [(''A'', ''z''), (''B'', '''')]]" .
  from t have all: "\<forall>cells.
               fst ` set (fill_row (patch_headers [''A'', ''B'']) cells) = set (patch_headers [''A'', ''B''])
             \<and> distinct (map fst (fill_row (patch_headers [''A'', ''B'']) cells))
             \<and> fill_row (patch_headers [''A'', ''B'']) cells
                 = fill_row (patch_headers [''A'', ''B'']) (take (length (patch_headers [''A'', ''B''])) cells)
             \<and> (\<forall>i < length (patch_headers [''A'', ''B'']).
                   (\<forall>j. i < j \<and> j < length (patch_headers [''A'', ''B''])
                        \<longrightarrow> patch_headers [''A'', ''B''] ! j \<noteq> patch_headers [''A'', ''B''] ! i) \<longrightarrow>
                   map_of (fill_row (patch_headers [''A'', ''B'']) cells) (patch_headers [''A'', ''B''] ! i)
                     = Some (cell_value cells i))"
    by blast
  from all have "fst ` set (fill_row (patch_headers [''A'', ''B'']) ['' z '']) = set (patch_headers [''A'', ''B''])"
    by blast
  then have b: "fst ` set (fill_row (patch_headers [''A'', ''B'']) ['' z '']) = {''A'', ''B''}"
    by (simp add: hs)
  from all have val: "\<forall>i < length (patch_headers [''A'', ''B'']).
                   (\<forall>j. i < j \<and> j < length (patch_headers [''A'', ''B''])
                        \<longrightarrow> patch_headers [''A'', ''B''] ! j \<noteq> patch_headers [''A'', ''B''] ! i) \<longrightarrow>
                   map_of (fill_row (patch_headers [''A'', ''B'']) ['' z '']) (patch_headers [''A'', ''B''] ! i)
                     = Some (cell_value ['' z ''] i)"
    by blast
  have i0: "0 < length [''A'', ''B'']" by simp
  have i1: "Suc 0 < length [''A'', ''B'']" by simp
  have last0: "\<forall>j. 0 < j \<and> j < length [''A'', ''B''] \<longrightarrow> [''A'', ''B''] ! j \<noteq> [''A'', ''B''] ! 0"
    by (auto simp add: less_Suc_eq)
  have last1: "\<forall>j. Suc 0 < j \<and> j < length [''A'', ''B''] \<longrightarrow> [''A'', ''B''] ! j \<noteq> [''A'', ''B''] ! Suc 0"
    by (auto simp add: less_Suc_eq)
  have cv0: "cell_value ['' z ''] 0 = ''z''" by code_simp
  have cv1: "cell_value ['' z ''] (Suc 0) = []" by code_simp
  from val [unfolded hs] i0 last0
  have "map_of (fill_row [''A'', ''B''] ['' z '']) ([''A'', ''B''] ! 0) = Some (cell_value ['' z ''] 0)"
    by blast
  then have c: "map_of (fill_row (patch_headers [''A'', ''B'']) ['' z '']) ''A'' = Some ''z''"
    by (simp add: hs cv0)
  from val [unfolded hs] i1 last1
  have "map_of (fill_row [''A'', ''B''] ['' z '']) ([''A'', ''B''] ! Suc 0) = Some (cell_value ['' z ''] (Suc 0))"
    by blast
  then have e: "map_of (fill_row (patch_headers [''A'', ''B'']) ['' z '']) ''B'' = Some []"
    by (simp add: hs cv1)
  from a b c e show ?thesis by blast
qed

text \<open>
  Claim C5. For a table with a first row, the headers are the trimmed texts of the header
  cells of that row if it has any; else the trimmed texts of its data cells if it has any;
  else the names \<open>Column_1\<close> to \<open>Column_N\<close>, \<open>N\<close> the largest number of cells in any
  row of the table. For a table without any row, where the claim has the third option
  apply, the test on the first row leaves the headers empty and the maximum over no rows
  raises \<open>ValueError\<close>: the derivation, and with it the extraction, fails.
\<close>

theorem header_derivation_precedence:
  "derive_headers (row # rest) =
     (if find_all_th row \<noteq> [] then Inr (map strip (find_all_th row))
      else if find_all_td row \<noteq> [] then Inr (map strip (find_all_td row))
      else Inr (map (\<lambda>i. ''Column_'' @ str_nat i)
                  [1..<Suc (Max ((\<lambda>r. length (find_all_td_th r)) ` set (row # rest)))]))
   \<and> derive_headers [] = Inl ValueError
   \<and> parse_table_rows_to_list (Some []) incl = Inl ValueError"
  by (simp only: derive_headers_Cons column_names_alt derive_headers_Nil zero_row_table_raises simp_thms)

theorem header_derivation_precedence_witness:
  "derive_headers [[Td ''ignored'', Th '' Name '', Th ''Phone''], [Td ''a'', Td ''b'', Td ''c'']]
     = Inr [''Name'', ''Phone'']
   \<and> derive_headers [[Other '' '', Td '' Name ''], [Td ''a'', Td ''b'', Td ''c'']] = Inr [''Name'']
   \<and> derive_headers [[Other '' ''], [Td ''a'', Th ''b'', Td ''c''], [Td ''d'']]
     = Inr [''Column_1'', ''Column_2'', ''Column_3'']
   \<and> derive_headers [] = Inl ValueError"
proof -
  note t = header_derivation_precedence [THEN conjunct1]
  have "derive_headers [[Td ''ignored'', Th '' Name '', Th ''Phone''], [Td ''a'', Td ''b'', Td ''c'']]
     = Inr [''Name'', ''Phone'']"
    unfolding t by code_simp
  moreover have "derive_headers [[Other '' '', Td '' Name ''], [Td ''a'', Td ''b'', Td ''c'']] = Inr [''Name'']"
    unfolding t by code_simp
  moreover have "derive_headers [[Other '' ''], [Td ''a'', Th ''b'', Td ''c''], [Td ''d'']]
     = Inr [''Column_1'', ''Column_2'', ''Column_3'']"
    unfolding t by code_simp
  moreover have "derive_headers [] = Inl ValueError"
    using header_derivation_precedence [of "[]" "[]" False] by blast
  ultimately show ?thesis by blast
qed

text \<open>
  Claim C6. A row after the first whose data cells all trim to the empty string adds
  nothing to the output by default; with blank rows requested it adds exactly its
  record, in its place among the records of the rows around it.
\<close>

theorem blank_rows_excluded_unless_requested:
  assumes "derive_headers (header_row # before @ row # after) = Inr derived"
    and "\<forall>cell \<in> set (find_all_td row). strip cell = []"
  shows "parse_table_rows_to_list (Some (header_row # before @ row # after)) incl =
           Inr (rows_loop (patch_headers derived) incl before
                @ (if incl then [fill_row (patch_headers derived) (find_all_td row)] else [])
                @ rows_loop (patch_headers derived) incl after)"
  using parse_Cons [OF assms(1)] assms(2)
  by (simp add: rows_loop_append has_data_blank Let_def)

theorem blank_rows_excluded_unless_requested_witness:
  "parse_table_rows_to_list
     (Some ([Th ''A'', Th ''B''] # [[Td ''x'', Td ''y'']] @ [Td ''  '', Td ''''] # [[Td ''z'']])) False
     = Inr [[(''A'', ''x''), (''B'', ''y'')], [(''A'', ''z''), (''B'', '''')]]
   \<and> parse_table_rows_to_list
     (Some ([Th ''A'', Th ''B''] # [[Td ''x'', Td ''y'']] @ [Td ''  '', Td ''''] # [[Td ''z'']])) True
     = Inr [[(''A'', ''x''), (''B'', ''y'')], [(''A'', ''''), (''B'', '''')], [(''A'', ''z''), (''B'', '''')]]"
proof -
  let ?t = "[Th ''A'', Th ''B''] # [[Td ''x'', Td ''y'']] @ [Td ''  '', Td ''''] # [[Td ''z'']]"
  have d: "derive_headers ?t = Inr [''A'', ''B'']" by code_simp
  have blank: "\<forall>cell \<in> set (find_all_td [Td ''  '', Td '''']). strip cell = []" by code_simp
  have "parse_table_rows_to_list (Some ?t) False
      = Inr (rows_loop (patch_headers [''A'', ''B'']) False [[Td ''x'', Td ''y'']]
                @ (if False then [fill_row (patch_headers [''A'', ''B'']) (find_all_td [Td ''  '', Td ''''])] else [])
                @ rows_loop (patch_headers [''A'', ''B'']) False [[Td ''z'']])"
    by (rule blank_rows_excluded_unless_requested [OF d blank])
  also have "\<dots> = Inr [[(''A'', ''x''), (''B'', ''y'')], [(''A'', ''z''), (''B'', '''')]]"
    by code_simp
  finally have a: "parse_table_rows_to_list (Some ?t) False
     = Inr [[(''A'', ''x''), (''B'', ''y'')], [(''A'', ''z''), (''B'', '''')]]" .
  have "parse_table_rows_to_list (Some ?t) True
      = Inr (rows_loop (patch_headers [''A'', ''B'']) True [[Td ''x'', Td ''y'']]
                @ (if True then [fill_row (patch_headers [''A'', ''B'']) (find_all_td [Td ''  '', Td ''''])] else [])
                @ rows_loop (patch_headers [''A'', ''B'']) True [[Td ''z'']])"
    by (rule blank_rows_excluded_unless_requested [OF d blank])
  also have "\<dots> = Inr [[(''A'', ''x''), (''B'', ''y'')], [(''A'', ''''), (''B'', '''')], [(''A'', ''z''), (''B'', '''')]]"
    by code_simp
  finally have b: "parse_table_rows_to_list (Some ?t) True
     = Inr [[(''A'', ''x''), (''B'', ''y'')], [(''A'', ''''), (''B'', '''')], [(''A'', ''z''), (''B'', '''')]]" .
  from a b show ?thesis by (rule conjI)
qed

text \<open>
  Claim C10. A row after the first without any data cell (all its cells are header cells)
  is read as having no data: by default it adds nothing to the output, and with blank rows
  requested it adds one record whose keys are the header set and whose every value is the
  empty string, so that none of the row's cell text reaches a record.
\<close>

theorem header_cell_rows_carry_no_data:
  assumes "derive_headers (header_row # before @ row # after) = Inr derived"
    and "\<forall>n \<in> set row. \<not> is_td n"
  shows "parse_table_rows_to_list (Some (header_row # before @ row # after)) incl =
           Inr (rows_loop (patch_headers derived) incl before
                @ (if incl then [fill_row (patch_headers derived) []] else [])
                @ rows_loop (patch_headers derived) incl after)
         \<and> fst ` set (fill_row (patch_headers derived) []) = set (patch_headers derived)
         \<and> (\<forall>h \<in> set (patch_headers derived). map_of (fill_row (patch_headers derived) []) h = Some [])"
proof -
  have td: "find_all_td row = []"
    using assms(2) by (simp add: find_all_td_def filter_empty_conv)
  have "parse_table_rows_to_list (Some (header_row # before @ row # after)) incl =
           Inr (rows_loop (patch_headers derived) incl before
                @ (if incl then [fill_row (patch_headers derived) []] else [])
                @ rows_loop (patch_headers derived) incl after)"
    using parse_Cons [OF assms(1)] td
    by (simp add: rows_loop_append has_data_def Let_def)
  moreover have "\<forall>h \<in> set (patch_headers derived). map_of (fill_row (patch_headers derived) []) h = Some []"
    by (simp add: fill_row_blank)
  ultimately show ?thesis by (simp add: fill_row_keys)
qed

theorem header_cell_rows_carry_no_data_witness:
  "parse_table_rows_to_list
     (Some ([Th ''A'', Th ''B''] # [[Td ''x'', Td ''y'']] @ [Th ''Total'', Th ''7''] # [])) False
     = Inr [[(''A'', ''x''), (''B'', ''y'')]]
   \<and> parse_table_rows_to_list
     (Some ([Th ''A'', Th ''B''] # [[Td ''x'', Td ''y'']] @ [Th ''Total'', Th ''7''] # [])) True
     = Inr [[(''A'', ''x''), (''B'', ''y'')], [(''A'', ''''), (''B'', '''')]]"
proof -
  let ?t = "[Th ''A'', Th ''B''] # [[Td ''x'', Td ''y'']] @ [Th ''Total'', Th ''7''] # []"
  have d: "derive_headers ?t = Inr [''A'', ''B'']" by code_simp
  have th: "\<forall>n \<in> set [Th ''Total'', Th ''7'']. \<not> is_td n" by simp
  note t = header_cell_rows_carry_no_data [OF d th]
  have "parse_table_rows_to_list (Some ?t) False
      = Inr (rows_loop (patch_headers [''A'', ''B'']) False [[Td ''x'', Td ''y'']]
                @ (if False then [fill_row (patch_headers [''A'', ''B'']) []] else [])
                @ rows_loop (patch_headers [''A'', ''B'']) False [])"
    using t [of False] by (rule conjunct1)
  also have "\<dots> = Inr [[(''A'', ''x''), (''B'', ''y'')]]"
    by code_simp
  finally have a: "parse_table_rows_to_list (Some ?t) False = Inr [[(''A'', ''x''), (''B'', ''y'')]]" .
  have "parse_table_rows_to_list (Some ?t) True
      = Inr (rows_loop (patch_headers [''A'', ''B'']) True [[Td ''x'', Td ''y'']]
                @ (if True then [fill_row (patch_headers [''A'', ''B'']) []] else [])
                @ rows_loop (patch_headers [''A'', ''B'']) True [])"
    using t [of True] by (rule conjunct1)
  also have "\<dots> = Inr [[(''A'', ''x''), (''B'', ''y'')], [(''A'', ''''), (''B'', '''')]]"
    by code_simp
  finally have b: "parse_table_rows_to_list (Some ?t) True
     = Inr [[(''A'', ''x''), (''B'', ''y'')], [(''A'', ''''), (''B'', '''')]]" .
  from a b show ?thesis by (rule conjI)
qed



text \<open>
  Claim C7, as the claim states it, fails: a page with a well-formed table followed by a
  table without any row gives no section at all, since reading the text of the absent first
  row raises \<open>AttributeError\<close>.
\<close>

theorem rowless_table_loses_sections_counterexample:
  "report_tables_loop [[[Td ''Jane Doe''], [Th ''Date''], [Td ''11/03'']], []] = Inl AttributeError"
  by code_simp

text \<open>
  Claim C7, amended. For a page whose selected tables each have a title row and a header
  row, the multi-table extraction gives exactly one section per table, in page order. The
  section of a table is keyed by the trimmed full text of its first row and holds the
  records that the single-table extraction gives for the table without that row, whose
  headers come from the former second row. Sections are never merged, equal titles or not.
  If such tables are followed by a selected table without any row, the extraction raises
  \<open>AttributeError\<close> and gives no section.
\<close>

theorem one_titled_section_per_table:
  assumes "\<forall>t \<in> set tables. 2 \<le> length t"
  shows "(\<exists>sections. report_tables_loop tables = Inr sections \<and> length sections = length tables \<and>
           (\<forall>i < length tables. \<exists>derived.
               derive_headers (tl (tables ! i)) = Inr derived \<and>
               parse_table_rows_to_list (Some (tl (tables ! i))) False
                 = Inr (rows_loop (patch_headers derived) False (tl (tl (tables ! i)))) \<and>
               sections ! i = [(strip (row_text (hd (tables ! i))),
                                rows_loop (patch_headers derived) False (tl (tl (tables ! i))))]))
         \<and> (\<forall>rest. report_tables_loop (tables @ [] # rest) = Inl AttributeError)"
proof
  show "\<forall>rest. report_tables_loop (tables @ [] # rest) = Inl AttributeError"
    using assms by (simp add: report_tables_loop_rowless)
  show "\<exists>sections. report_tables_loop tables = Inr sections \<and> length sections = length tables \<and>
           (\<forall>i < length tables. \<exists>derived.
               derive_headers (tl (tables ! i)) = Inr derived \<and>
               parse_table_rows_to_list (Some (tl (tables ! i))) False
                 = Inr (rows_loop (patch_headers derived) False (tl (tl (tables ! i)))) \<and>
               sections ! i = [(strip (row_text (hd (tables ! i))),
                                rows_loop (patch_headers derived) False (tl (tl (tables ! i))))])"
    using assms
  proof (induction tables)
    case Nil
    then show ?case by simp
  next
    case (Cons t ts)
    from Cons.prems have "2 \<le> length t" by simp
    then obtain first_row header_row rows where t: "t = first_row # header_row # rows"
      by (cases t; cases "tl t") auto
    obtain derived where d: "derive_headers (header_row # rows) = Inr derived"
      using derive_headers_total by blast
    have p: "parse_table_rows_to_list (Some (header_row # rows)) False
               = Inr (rows_loop (patch_headers derived) False rows)"
      using d by (rule parse_Cons)
    from Cons.prems have "\<forall>t \<in> set ts. 2 \<le> length t" by simp
    from Cons.IH [OF this] obtain secs where
      secs: "report_tables_loop ts = Inr secs" "length secs = length ts"
        "\<forall>i < length ts. \<exists>derived.
                 derive_headers (tl (ts ! i)) = Inr derived \<and>
                 parse_table_rows_to_list (Some (tl (ts ! i))) False
                   = Inr (rows_loop (patch_headers derived) False (tl (tl (ts ! i)))) \<and>
                 secs ! i = [(strip (row_text (hd (ts ! i))),
                                  rows_loop (patch_headers derived) False (tl (tl (ts ! i))))]"
      by blast
    let ?sec = "[(strip (row_text first_row), rows_loop (patch_headers derived) False rows)]"
    have r: "report_tables_loop (t # ts) = Inr (?sec # secs)"
      using t p secs(1) by simp
    have "\<forall>i < length (t # ts). \<exists>derived.
                 derive_headers (tl ((t # ts) ! i)) = Inr derived \<and>
                 parse_table_rows_to_list (Some (tl ((t # ts) ! i))) False
                   = Inr (rows_loop (patch_headers derived) False (tl (tl ((t # ts) ! i)))) \<and>
                 (?sec # secs) ! i = [(strip (row_text (hd ((t # ts) ! i))),
                                  rows_loop (patch_headers derived) False (tl (tl ((t # ts) ! i))))]"
    proof (intro allI impI)
      fix i assume i: "i < length (t # ts)"
      show "\<exists>derived.
                 derive_headers (tl ((t # ts) ! i)) = Inr derived \<and>
                 parse_table_rows_to_list (Some (tl ((t # ts) ! i))) False
                   = Inr (rows_loop (patch_headers derived) False (tl (tl ((t # ts) ! i)))) \<and>
                 (?sec # secs) ! i = [(strip (row_text (hd ((t # ts) ! i))),
                                  rows_loop (patch_headers derived) False (tl (tl ((t # ts) ! i))))]"
      proof (cases i)
        case 0
        then show ?thesis using t d p by simp
      next
        case (Suc k)
        then have "k < length ts" using i by simp
        then show ?thesis using secs(3) Suc by simp
      qed
    qed
    then show ?case using r secs(2) by simp
  qed
qed

theorem one_titled_section_per_table_witness:
  "report_tables_loop
     [[[Td '' Jane Doe ''], [Th ''Date'', Th ''Hours''], [Td ''11/03'', Td ''4'']],
      [[Td ''Jane Doe''], [Th ''Date'', Th ''Hours''], [Td ''11/04'', Td ''6'']]]
   = Inr [[(''Jane Doe'', [[(''Date'', ''11/03''), (''Hours'', ''4'')]])],
          [(''Jane Doe'', [[(''Date'', ''11/04''), (''Hours'', ''6'')]])]]
   \<and> report_tables_loop
     ([[[Td '' Jane Doe ''], [Th ''Date'', Th ''Hours''], [Td ''11/03'', Td ''4'']],
       [[Td ''Jane Doe''], [Th ''Date'', Th ''Hours''], [Td ''11/04'', Td ''6'']]] @ [] # [])
   = Inl AttributeError"
proof -
  let ?t1 = "[[Td '' Jane Doe ''], [Th ''Date'', Th ''Hours''], [Td ''11/03'', Td ''4'']]"
  let ?t2 = "[[Td ''Jane Doe''], [Th ''Date'', Th ''Hours''], [Td ''11/04'', Td ''6'']]"
  have h: "\<forall>t \<in> set [?t1, ?t2]. 2 \<le> length t" by simp
  note t = one_titled_section_per_table [OF h]
  from t obtain sections where
    s: "report_tables_loop [?t1, ?t2] = Inr sections" and "length sections = length [?t1, ?t2]"
    by blast
  have "report_tables_loop [?t1, ?t2]
   = Inr [[(''Jane Doe'', [[(''Date'', ''11/03''), (''Hours'', ''4'')]])],
          [(''Jane Doe'', [[(''Date'', ''11/04''), (''Hours'', ''6'')]])]]"
    by code_simp
  with s have a: "report_tables_loop [?t1, ?t2]
   = Inr [[(''Jane Doe'', [[(''Date'', ''11/03''), (''Hours'', ''4'')]])],
          [(''Jane Doe'', [[(''Date'', ''11/04''), (''Hours'', ''6'')]])]]" by simp
  from t have b: "report_tables_loop ([?t1, ?t2] @ [] # []) = Inl AttributeError" by blast
  from a b show ?thesis by (rule conjI)
qed

end
